theory Spec2Isabelle
  imports Main "HOL-Library.AList" "HOL-Library.Multiset" "HOL-Library.Sublist"
begin

section \<open>The random source\<close>

text \<open>
  The program draws all its randomness from Python's module \<^verbatim>\<open>random\<close>, whose hidden
  generator state is made explicit here: an infinite sequence of raw draws and the number
  of draws consumed so far. The three library operations the program calls are modelled
  from the library's documented behaviour (they are not code of the repository):
  \<^verbatim>\<open>randbelow(n)\<close> yields a number below \<open>n\<close>, \<^verbatim>\<open>random.choice(seq)\<close> is
  \<^verbatim>\<open>seq[randbelow(len(seq))]\<close>, and \<^verbatim>\<open>random.shuffle(x)\<close> is the in-place
  Fisher-Yates loop
  \<^verbatim>\<open>for i in reversed(range(1, len(x))): j = randbelow(i + 1); x[i], x[j] = x[j], x[i]\<close>.
  Reducing a raw draw modulo \<open>n\<close> lets every value below \<open>n\<close> occur and nothing else.
\<close>

record random_state =
  source :: "nat \<Rightarrow> nat"
  consumed :: nat

definition randbelow :: "nat \<Rightarrow> random_state \<Rightarrow> nat \<times> random_state" where
  "randbelow n st = (source st (consumed st) mod n, st\<lparr>consumed := Suc (consumed st)\<rparr>)"

fun shuffle_loop :: "nat \<Rightarrow> 'a list \<Rightarrow> random_state \<Rightarrow> 'a list \<times> random_state" where
  "shuffle_loop 0 x st = (x, st)"
| "shuffle_loop (Suc i) x st =
     (case randbelow (Suc i + 1) st of
        (j, st') \<Rightarrow> shuffle_loop i (x[Suc i := x ! j, j := x ! Suc i]) st')"

definition shuffle :: "'a list \<Rightarrow> random_state \<Rightarrow> 'a list \<times> random_state" where
  "shuffle x st = shuffle_loop (length x - 1) x st"

section \<open>The matcher\<close>

text \<open>
  \<^verbatim>\<open>generate_matches\<close> raises one exception of its own, after \<^verbatim>\<open>max_attempts\<close> rejected
  candidates; the subscript \<^verbatim>\<open>receivers[i]\<close> could raise \<^verbatim>\<open>IndexError\<close>, which the model
  keeps as a branch.
\<close>

datatype error = IndexError | GenerationExhausted nat

definition max_attempts :: nat where
  "max_attempts = 1000"

text \<open>
  The validity scan: \<^verbatim>\<open>for i, giver in enumerate(givers): if giver == receivers[i]: valid = False; break\<close>.
  The second list is the part of \<^verbatim>\<open>receivers\<close> from index \<open>i\<close> on.
\<close>

fun check_valid :: "'a list \<Rightarrow> 'a list \<Rightarrow> error + bool" where
  "check_valid [] rs = Inr True"
| "check_valid (g # gs) [] = Inl IndexError"
| "check_valid (g # gs) (r # rs) = (if g = r then Inr False else check_valid gs rs)"

text \<open>
  The dictionary \<^verbatim>\<open>matches\<close> is an association list in insertion order; the assignment
  \<^verbatim>\<open>matches[giver] = receivers[i]\<close> overwrites the value of a key already present and
  appends a new key, which is what \<^const>\<open>AList.update\<close> does.
\<close>

fun fill_matches :: "'a list \<Rightarrow> 'a list \<Rightarrow> ('a \<times> 'a) list \<Rightarrow> error + ('a \<times> 'a) list" where
  "fill_matches [] rs matches = Inr matches"
| "fill_matches (g # gs) [] matches = Inl IndexError"
| "fill_matches (g # gs) (r # rs) matches = fill_matches gs rs (AList.update g r matches)"

text \<open>
  The loop \<^verbatim>\<open>for attempt in range(max_attempts)\<close>: the first argument counts the attempts
  left, the second the calls of \<^verbatim>\<open>random.shuffle\<close> made so far (returned with the result,
  so that the number of attempts is observable). \<^verbatim>\<open>receivers\<close> keeps its shuffled content
  from one attempt to the next.
\<close>

fun attempt_loop ::
  "nat \<Rightarrow> nat \<Rightarrow> 'a list \<Rightarrow> 'a list \<Rightarrow> random_state
     \<Rightarrow> (error + ('a \<times> 'a) list) \<times> nat \<times> random_state" where
  "attempt_loop 0 n givers receivers st = (Inl (GenerationExhausted max_attempts), n, st)"
| "attempt_loop (Suc k) n givers receivers st =
     (case shuffle receivers st of
        (receivers', st') \<Rightarrow>
          (case check_valid givers receivers' of
             Inl e \<Rightarrow> (Inl e, Suc n, st')
           | Inr valid \<Rightarrow>
               if valid then (fill_matches givers receivers' [], Suc n, st')
               else attempt_loop k (Suc n) givers receivers' st'))"

definition generate_matches ::
  "'a list \<Rightarrow> random_state \<Rightarrow> (error + ('a \<times> 'a) list) \<times> nat \<times> random_state" where
  "generate_matches participants st =
     (let receivers = participants;
          givers = participants
      in attempt_loop max_attempts 0 givers receivers st)"

text \<open>
  A candidate has a fixed point when some giver meets itself at its own position; this is
  the condition under which the validity scan rejects it.
\<close>

definition fixed_point :: "'a list \<Rightarrow> 'a list \<Rightarrow> bool" where
  "fixed_point gs rs = list_ex (\<lambda>(g, r). g = r) (zip gs rs)"

text \<open>
  The receivers after \<open>k\<close> calls of \<^verbatim>\<open>random.shuffle\<close>, each applied to the outcome of the
  one before: the candidate of attempt \<open>k\<close>.
\<close>

fun shuffles :: "nat \<Rightarrow> 'a list \<Rightarrow> random_state \<Rightarrow> 'a list \<times> random_state" where
  "shuffles 0 x st = (x, st)"
| "shuffles (Suc k) x st = (case shuffle x st of (x', st') \<Rightarrow> shuffles k x' st')"

definition candidate :: "nat \<Rightarrow> 'a list \<Rightarrow> random_state \<Rightarrow> 'a list" where
  "candidate k participants st = fst (shuffles k participants st)"

text \<open>
  Two generator states hold the same randomness when they stand at the same position and
  their pending draws agree; draws already read play no part.
\<close>

definition same_draws :: "random_state \<Rightarrow> random_state \<Rightarrow> bool" where
  "same_draws st1 st2 \<longleftrightarrow>
     consumed st1 = consumed st2 \<and> (\<forall>k\<ge>consumed st1. source st1 k = source st2 k)"

section \<open>The matcher on a store\<close>

text \<open>
  Python lists are mutable objects and \<^verbatim>\<open>random.shuffle\<close> works in place. To speak of what
  \<^verbatim>\<open>generate_matches\<close> does to the list it is given, lists live in a store: a reference is
  an index, \<^verbatim>\<open>participants.copy()\<close> allocates a new list, and the shuffle overwrites the
  list at the reference it is given. The argument \<^verbatim>\<open>participants\<close> is a reference.
\<close>

definition list_copy :: "nat \<Rightarrow> 'a list list \<Rightarrow> nat \<times> 'a list list" where
  "list_copy a h = (length h, h @ [h ! a])"

definition shuffle_in_place ::
  "nat \<Rightarrow> 'a list list \<Rightarrow> random_state \<Rightarrow> 'a list list \<times> random_state" where
  "shuffle_in_place a h st = (case shuffle (h ! a) st of (x, st') \<Rightarrow> (h[a := x], st'))"

fun attempt_loop_st ::
  "nat \<Rightarrow> nat \<Rightarrow> nat \<Rightarrow> nat \<Rightarrow> 'a list list \<Rightarrow> random_state
     \<Rightarrow> (error + ('a \<times> 'a) list) \<times> nat \<times> random_state \<times> 'a list list" where
  "attempt_loop_st 0 n givers receivers h st =
     (Inl (GenerationExhausted max_attempts), n, st, h)"
| "attempt_loop_st (Suc k) n givers receivers h st =
     (case shuffle_in_place receivers h st of
        (h', st') \<Rightarrow>
          (case check_valid (h' ! givers) (h' ! receivers) of
             Inl e \<Rightarrow> (Inl e, Suc n, st', h')
           | Inr valid \<Rightarrow>
               if valid then (fill_matches (h' ! givers) (h' ! receivers) [], Suc n, st', h')
               else attempt_loop_st k (Suc n) givers receivers h' st'))"

definition generate_matches_st ::
  "nat \<Rightarrow> 'a list list \<Rightarrow> random_state
     \<Rightarrow> (error + ('a \<times> 'a) list) \<times> nat \<times> random_state \<times> 'a list list" where
  "generate_matches_st participants h st =
     (case list_copy participants h of
        (receivers, h1) \<Rightarrow>
          (case list_copy participants h1 of
             (givers, h2) \<Rightarrow> attempt_loop_st max_attempts 0 givers receivers h2 st))"

section \<open>Strings and sample inputs\<close>

text \<open>
  A Python \<^verbatim>\<open>str\<close> is a sequence of Unicode code points; \<open>str_of\<close> reads an ASCII
  literal as one.
\<close>

type_synonym pystr = "nat list"

definition str_of :: "string \<Rightarrow> pystr" where
  "str_of s = map of_char s"

text \<open>A source whose every raw draw is zero, not yet read.\<close>

definition zero_source :: random_state where
  "zero_source = \<lparr>source = (\<lambda>k. 0), consumed = 0\<rparr>"

text \<open>Two states at the same position whose pending draws agree and whose past differs.\<close>

definition replay_a :: random_state where
  "replay_a = \<lparr>source = (\<lambda>k. 0), consumed = 1\<rparr>"

definition replay_b :: random_state where
  "replay_b = \<lparr>source = (\<lambda>k. if k = 0 then 7 else 0), consumed = 1\<rparr>"

definition abc :: "pystr list" where
  "abc = [str_of ''A'', str_of ''B'', str_of ''C'']"

section \<open>The participants and the personal page\<close>

text \<open>The module constant \<^verbatim>\<open>PARTICIPANTS\<close>; the accented letter is U+00E9.\<close>

definition PARTICIPANTS :: "pystr list" where
  "PARTICIPANTS =
    [str_of ''Annie'',
     str_of ''Jacques'',
     str_of ''Vincent'',
     str_of ''Nathalie'',
     str_of ''Gr'' @ [0xE9] @ str_of ''goire'',
     str_of ''Aroldo'',
     str_of ''Laurence'',
     str_of ''Patrick'',
     str_of ''Arthur'',
     str_of ''Mathilde'',
     str_of ''Quentin'',
     str_of ''Cl'' @ [0xE9] @ str_of ''mence'',
     str_of ''Axel'',
     str_of ''Julien'',
     str_of ''Aur'' @ [0xE9] @ str_of ''lie'',
     str_of ''Oscar'',
     str_of ''Jeanne'',
     str_of ''L'' @ [0xE9] @ str_of ''on'']"

text \<open>
  \<^verbatim>\<open>create_individual_page\<close> returns one f-string with two replacement fields,
  \<^verbatim>\<open>{giver}\<close> and \<^verbatim>\<open>{receiver}\<close>, in this order; doubled braces stand for single ones. The
  literal text is kept line by line: the lines before the first field and the open end of
  the line the field is on, the same up to the second field, and the rest, the last line
  having no newline. Characters outside ASCII are written by code point.
\<close>

definition text_lines :: "pystr list \<Rightarrow> pystr" where
  "text_lines ls = concat (map (\<lambda>l. l @ [0x0A]) ls)"

definition page_head_lines :: "pystr list" where
  \<open>page_head_lines =
     [str_of ''<!DOCTYPE html>'',
      str_of ''<html lang="fr">'',
      str_of ''<head>'',
      str_of ''    <meta charset="UTF-8">'',
      str_of ''    <meta name="viewport" content="width=device-width, initial-scale=1.0">'',
      str_of ''    <title>Secret Santa - La Famillia</title>'',
      str_of ''    <style>'',
      str_of ''        * {'',
      str_of ''            margin: 0;'',
      str_of ''            padding: 0;'',
      str_of ''            box-sizing: border-box;'',
      str_of ''        }'',
      [],
      str_of ''        body {'',
      str_of ''            font-family: 'Georgia', serif;'',
      str_of ''            background: linear-gradient(135deg, #1a472a 0%, #2d5a3d 50%, #1a472a 100%);'',
      str_of ''            min-height: 100vh;'',
      str_of ''            display: flex;'',
      str_of ''            justify-content: center;'',
      str_of ''            align-items: center;'',
      str_of ''            padding: 20px;'',
      str_of ''            position: relative;'',
      str_of ''            overflow-x: hidden;'',
      str_of ''        }'',
      [],
      str_of ''        /* Snowflakes animation */'',
      str_of ''        .snowflake {'',
      str_of ''            position: absolute;'',
      str_of ''            top: -10px;'',
      str_of ''            color: white;'',
      str_of ''            font-size: 1em;'',
      str_of ''            font-family: Arial, sans-serif;'',
      str_of ''            text-shadow: 0 0 5px #fff;'',
      str_of ''            animation: fall linear infinite;'',
      str_of ''        }'',
      [],
      str_of ''        @keyframes fall {'',
      str_of ''            to {'',
      str_of ''                transform: translateY(100vh);'',
      str_of ''            }'',
      str_of ''        }'',
      [],
      str_of ''        .container {'',
      str_of ''            background: white;'',
      str_of ''            border-radius: 20px;'',
      str_of ''            padding: 40px;'',
      str_of ''            max-width: 600px;'',
      str_of ''            width: 100%;'',
      str_of ''            box-shadow: 0 20px 60px rgba(0, 0, 0, 0.3);'',
      str_of ''            text-align: center;'',
      str_of ''            position: relative;'',
      str_of ''            z-index: 1;'',
      str_of ''        }'',
      [],
      str_of ''        .header {'',
      str_of ''            margin-bottom: 30px;'',
      str_of ''        }'',
      [],
      str_of ''        h1 {'',
      str_of ''            color: #c41e3a;'',
      str_of ''            font-size: 2.5em;'',
      str_of ''            margin-bottom: 10px;'',
      str_of ''            text-shadow: 2px 2px 4px rgba(0, 0, 0, 0.1);'',
      str_of ''        }'',
      [],
      str_of ''        .greeting {'',
      str_of ''            font-size: 1.3em;'',
      str_of ''            color: #2d5a3d;'',
      str_of ''            margin-bottom: 30px;'',
      str_of ''        }'',
      [],
      str_of ''        .reveal-section {'',
      str_of ''            margin: 40px 0;'',
      str_of ''        }'',
      [],
      str_of ''        .reveal-button {'',
      str_of ''            background: linear-gradient(135deg, #c41e3a 0%, #a01729 100%);'',
      str_of ''            color: white;'',
      str_of ''            border: none;'',
      str_of ''            padding: 20px 40px;'',
      str_of ''            font-size: 1.3em;'',
      str_of ''            border-radius: 50px;'',
      str_of ''            cursor: pointer;'',
      str_of ''            transition: all 0.3s ease;'',
      str_of ''            box-shadow: 0 4px 15px rgba(196, 30, 58, 0.4);'',
      str_of ''            font-weight: bold;'',
      str_of ''        }'',
      [],
      str_of ''        .reveal-button:hover {'',
      str_of ''            transform: translateY(-2px);'',
      str_of ''            box-shadow: 0 6px 20px rgba(196, 30, 58, 0.6);'',
      str_of ''        }'',
      [],
      str_of ''        .reveal-button:active {'',
      str_of ''            transform: translateY(0);'',
      str_of ''        }'',
      [],
      str_of ''        .revealed {'',
      str_of ''            display: none;'',
      str_of ''            margin-top: 30px;'',
      str_of ''            padding: 30px;'',
      str_of ''            background: linear-gradient(135deg, #fff9e6 0%, #ffe6cc 100%);'',
      str_of ''            border-radius: 15px;'',
      str_of ''            border: 3px solid #c41e3a;'',
      str_of ''        }'',
      [],
      str_of ''        .revealed.show {'',
      str_of ''            display: block;'',
      str_of ''            animation: fadeIn 0.5s ease;'',
      str_of ''        }'',
      [],
      str_of ''        @keyframes fadeIn {'',
      str_of ''            from {'',
      str_of ''                opacity: 0;'',
      str_of ''                transform: scale(0.9);'',
      str_of ''            }'',
      str_of ''            to {'',
      str_of ''                opacity: 1;'',
      str_of ''                transform: scale(1);'',
      str_of ''            }'',
      str_of ''        }'',
      [],
      str_of ''        .receiver-name {'',
      str_of ''            font-size: 2em;'',
      str_of ''            color: #c41e3a;'',
      str_of ''            font-weight: bold;'',
      str_of ''            margin: 20px 0;'',
      str_of ''        }'',
      [],
      str_of ''        .info-section {'',
      str_of ''            margin-top: 40px;'',
      str_of ''            padding: 25px;'',
      str_of ''            background: #f8f9fa;'',
      str_of ''            border-radius: 10px;'',
      str_of ''            text-align: left;'',
      str_of ''        }'',
      [],
      str_of ''        .info-section h2 {'',
      str_of ''            color: #2d5a3d;'',
      str_of ''            margin-bottom: 15px;'',
      str_of ''            font-size: 1.5em;'',
      str_of ''        }'',
      [],
      str_of ''        .info-item {'',
      str_of ''            margin: 10px 0;'',
      str_of ''            padding: 10px;'',
      str_of ''            background: white;'',
      str_of ''            border-radius: 5px;'',
      str_of ''            border-left: 4px solid #c41e3a;'',
      str_of ''        }'',
      [],
      str_of ''        .info-item strong {'',
      str_of ''            color: #2d5a3d;'',
      str_of ''        }'',
      [],
      str_of ''        .rules {'',
      str_of ''            margin-top: 20px;'',
      str_of ''        }'',
      [],
      str_of ''        .rules ul {'',
      str_of ''            list-style: none;'',
      str_of ''            padding-left: 0;'',
      str_of ''        }'',
      [],
      str_of ''        .rules li {'',
      str_of ''            padding: 10px;'',
      str_of ''            margin: 8px 0;'',
      str_of ''            background: white;'',
      str_of ''            border-radius: 5px;'',
      str_of ''            border-left: 4px solid #2d5a3d;'',
      str_of ''        }'',
      [],
      str_of ''        .rules li::before {'',
      str_of ''            content: "'' @ [0x1F381] @ str_of '' ";'',
      str_of ''            margin-right: 10px;'',
      str_of ''        }'',
      [],
      str_of ''        .decoration {'',
      str_of ''            font-size: 3em;'',
      str_of ''            margin: 10px 0;'',
      str_of ''        }'',
      str_of ''    </style>'',
      str_of ''</head>'',
      str_of ''<body>'',
      str_of ''    <!-- Snowflakes -->'',
      str_of ''    <script>'',
      str_of ''        // Generate snowflakes'',
      str_of ''        for (let i = 0; i < 20; i++) {'',
      str_of ''            let snowflake = document.createElement('div');'',
      str_of ''            snowflake.className = 'snowflake';'',
      str_of ''            snowflake.innerHTML = '' @ [0x27, 0x2744, 0x27] @ str_of '';'',
      str_of ''            snowflake.style.left = Math.random() * 100 + '%';'',
      str_of ''            snowflake.style.animationDuration = (Math.random() * 3 + 2) + 's';'',
      str_of ''            snowflake.style.animationDelay = Math.random() * 5 + 's';'',
      str_of ''            snowflake.style.opacity = Math.random();'',
      str_of ''            snowflake.style.fontSize = (Math.random() * 10 + 10) + 'px';'',
      str_of ''            document.body.appendChild(snowflake);'',
      str_of ''        }'',
      str_of ''    </script>'',
      [],
      str_of ''    <div class="container">'',
      str_of ''        <div class="header">'',
      str_of ''            <div class="decoration">'' @ [0x1F384] @ str_of '' '' @ [0x2B50] @ str_of '' '' @ [0x1F384] @ str_of ''</div>'',
      str_of ''            <h1>Secret Santa</h1>'',
      str_of ''            <h2 style="color: #2d5a3d; margin-top: 10px;">La Famillia 2025</h2>'',
      str_of ''        </div>'',
      []]\<close>

definition page_head_end :: pystr where
  \<open>page_head_end = str_of ''        <p class="greeting">Bonjour <strong>''\<close>

definition page_head :: pystr where
  "page_head = text_lines page_head_lines @ page_head_end"

definition page_middle_lines :: "pystr list" where
  \<open>page_middle_lines =
     [str_of ''</strong> !</p>'',
      [],
      str_of ''        <div class="reveal-section">'',
      str_of ''            <button class="reveal-button" onclick="revealSecretSanta()">'',
      str_of ''                '' @ [0x1F381] @ str_of '' D'' @ [0xE9] @ str_of ''couvre ton Secret Santa '' @ [0x1F381],
      str_of ''            </button>'',
      [],
      str_of ''            <div class="revealed" id="revealed">'',
      str_of ''                <div class="decoration">'' @ [0x1F385] @ str_of '' '' @ [0x1F381] @ str_of '' '' @ [0x1F385] @ str_of ''</div>'',
      str_of ''                <p style="font-size: 1.2em; color: #2d5a3d;">Tu dois offrir un cadeau '' @ [0xE0] @ str_of '' :</p>'']\<close>

definition page_middle_end :: pystr where
  \<open>page_middle_end = str_of ''                <div class="receiver-name">''\<close>

definition page_middle :: pystr where
  "page_middle = text_lines page_middle_lines @ page_middle_end"

definition page_tail_lines :: "pystr list" where
  \<open>page_tail_lines =
     [str_of ''</div>'',
      str_of ''                <div class="decoration">'' @ [0x2728] @ str_of '' '' @ [0x1F31F] @ str_of '' '' @ [0x2728] @ str_of ''</div>'',
      str_of ''            </div>'',
      str_of ''        </div>'',
      [],
      str_of ''        <div class="info-section">'',
      str_of ''            <h2>'' @ [0x1F4C5] @ str_of '' Informations</h2>'',
      str_of ''            <div class="info-item">'',
      str_of ''                <strong>Date :</strong> 25 d'' @ [0xE9] @ str_of ''cembre 2025 (soir)'',
      str_of ''            </div>'',
      str_of ''            <div class="info-item">'',
      str_of ''                <strong>Lieu :</strong> Les Quinaux'',
      str_of ''            </div>'',
      [],
      str_of ''            <div class="rules">'',
      str_of ''                <h2 style="margin-top: 25px;">'' @ [0x1F4DC] @ str_of '' R'' @ [0xE8] @ str_of ''gles</h2>'',
      str_of ''                <ul>'',
      str_of ''                    <li>Cadeau '' @ [0xE0] @ str_of '' moins de 50'' @ [0x20AC] @ str_of ''</li>'',
      str_of ''                    <li>Le jour m'' @ [0xEA] @ str_of ''me : pense '' @ [0xE0] @ str_of '' bien avoir '' @ [0xE9] @ str_of ''crit le nom sur le papier cadeau</li>'',
      str_of ''                    <li>Si tu as une id'' @ [0xE9] @ str_of ''e de cadeau, n'h'' @ [0xE9] @ str_of ''site pas '' @ [0xE0] @ str_of '' en faire part '' @ [0xE0] @ str_of '' tes proches qui pourraient '' @ [0xEA] @ str_of ''tre contact'' @ [0xE9] @ str_of ''s pour savoir ce qui te ferait plaisir</li>'',
      str_of ''                </ul>'',
      str_of ''            </div>'',
      str_of ''        </div>'',
      [],
      str_of ''        <div style="margin-top: 30px; color: #888; font-size: 0.9em;">'',
      str_of ''            <p>'' @ [0x1F384] @ str_of '' Joyeux No'' @ [0xEB] @ str_of ''l et bon Secret Santa ! '' @ [0x1F384] @ str_of ''</p>'',
      str_of ''        </div>'',
      str_of ''    </div>'',
      [],
      str_of ''    <script>'',
      str_of ''        function revealSecretSanta() {'',
      str_of ''            const revealed = document.getElementById('revealed');'',
      str_of ''            revealed.classList.add('show');'',
      [],
      str_of ''            // Optionally hide the button after reveal'',
      str_of ''            const button = document.querySelector('.reveal-button');'',
      str_of ''            button.style.display = 'none';'',
      str_of ''        }'',
      str_of ''    </script>'',
      str_of ''    <div style="position: fixed; bottom: 5px; right: 10px; font-size: 10px; color: #999; opacity: 0.5;">v1.0.1</div>'',
      str_of ''</body>'']\<close>

definition page_tail_end :: pystr where
  \<open>page_tail_end = str_of ''</html>''\<close>

definition page_tail :: pystr where
  "page_tail = text_lines page_tail_lines @ page_tail_end"

definition create_individual_page :: "pystr \<Rightarrow> pystr \<Rightarrow> pystr \<Rightarrow> pystr" where
  "create_individual_page giver receiver random_string =
     (let html = page_head @ giver @ page_middle @ receiver @ page_tail in html)"

text \<open>
  Whether some name of a list occurs in a text, and whether some name starts it; both are
  used to scan the literal text of the page for participant names.
\<close>

definition mentions :: "pystr list \<Rightarrow> pystr \<Rightarrow> bool" where
  "mentions names t = list_ex (\<lambda>n. sublist n t) names"

definition starts :: "pystr list \<Rightarrow> pystr \<Rightarrow> bool" where
  "starts names t = list_ex (\<lambda>n. prefix n t) names"

section \<open>File names\<close>

text \<open>
  \<^verbatim>\<open>generate_random_string\<close> joins \<^verbatim>\<open>length\<close> calls of \<^verbatim>\<open>random.choice(characters)\<close>, where
  \<^verbatim>\<open>characters\<close> is \<^verbatim>\<open>string.ascii_lowercase + string.digits\<close>. \<^verbatim>\<open>random.choice\<close> is only
  ever called on these 36 characters, so its failure on an empty sequence is not modelled.
\<close>

definition characters :: pystr where
  "characters = str_of ''abcdefghijklmnopqrstuvwxyz'' @ str_of ''0123456789''"

definition choice :: "'a list \<Rightarrow> random_state \<Rightarrow> 'a \<times> random_state" where
  "choice seq st = (case randbelow (length seq) st of (i, st') \<Rightarrow> (seq ! i, st'))"

fun generate_random_string :: "nat \<Rightarrow> random_state \<Rightarrow> pystr \<times> random_state" where
  "generate_random_string 0 st = ([], st)"
| "generate_random_string (Suc length') st =
     (case choice characters st of
        (c, st') \<Rightarrow>
          (case generate_random_string length' st' of (cs, st'') \<Rightarrow> (c # cs, st'')))"

text \<open>
  \<^verbatim>\<open>generate_filename\<close> calls three operations of the Python library that rest on the
  tables of the Unicode standard: \<^verbatim>\<open>unicodedata.normalize('NFD', name)\<close>, the test
  \<^verbatim>\<open>unicodedata.category(c) != 'Mn'\<close> and \<^verbatim>\<open>str.lower\<close>. The tables are not code of the
  repository, so the function takes them as a parameter.
\<close>

record unicode_data =
  normalize_NFD :: "pystr \<Rightarrow> pystr"
  category_Mn :: "nat \<Rightarrow> bool"
  lower :: "pystr \<Rightarrow> pystr"

definition replace_char :: "nat \<Rightarrow> nat \<Rightarrow> pystr \<Rightarrow> pystr" where
  "replace_char old new s = map (\<lambda>c. if c = old then new else c) s"

definition generate_filename :: "unicode_data \<Rightarrow> pystr \<Rightarrow> pystr" where
  "generate_filename ucd name =
     (let nfd = normalize_NFD ucd name;
          without_accents = filter (\<lambda>c. \<not> category_Mn ucd c) nfd;
          filename_base = replace_char 0x20 0x2D (lower ucd without_accents)
      in filename_base)"





text \<open>
  The body of the loop of \<^verbatim>\<open>main\<close> over \<^verbatim>\<open>matches.items()\<close>: the token, the file name
  \<^verbatim>\<open>f"{filename_base}-{random_string}.html"\<close> and the content written under that name.
  \<^verbatim>\<open>generate_random_string()\<close> is called with its default length 8.
\<close>

definition main_step ::
  "unicode_data \<Rightarrow> pystr \<Rightarrow> pystr \<Rightarrow> random_state \<Rightarrow> (pystr \<times> pystr) \<times> random_state" where
  "main_step ucd giver receiver st =
     (case generate_random_string 8 st of
        (random_string, st') \<Rightarrow>
          (let filename_base = generate_filename ucd giver;
               filename = filename_base @ str_of ''-'' @ random_string @ str_of ''.html'';
               html_content = create_individual_page giver receiver random_string
           in ((filename, html_content), st')))"





section \<open>Properties of the shuffle\<close>

lemma length_shuffle_loop: "length (fst (shuffle_loop i x st)) = length x"
  by (induction i arbitrary: x st) (simp_all add: split_beta)

lemma length_shuffle: "length (fst (shuffle x st)) = length x"
  by (simp add: shuffle_def length_shuffle_loop)

lemma randbelow_less: "0 < n \<Longrightarrow> fst (randbelow n st) < n"
  by (simp add: randbelow_def)

lemma mset_shuffle_loop: "i < length x \<Longrightarrow> mset (fst (shuffle_loop i x st)) = mset x"
proof (induction i arbitrary: x st)
  case 0
  then show ?case by simp
next
  case (Suc i)
  obtain j st' where r: "randbelow (Suc i + 1) st = (j, st')"
    by (cases "randbelow (Suc i + 1) st")
  have "j < Suc i + 1"
    using randbelow_less [of "Suc i + 1" st] r by simp
  with Suc.prems have j: "j < length x" by simp
  have "mset (x[Suc i := x ! j, j := x ! Suc i]) = mset x"
    using Suc.prems j by (simp add: mset_swap)
  moreover have "i < length (x[Suc i := x ! j, j := x ! Suc i])"
    using Suc.prems by simp
  ultimately show ?case
    using Suc.IH [of "x[Suc i := x ! j, j := x ! Suc i]" st'] r by simp
qed

lemma mset_shuffle: "mset (fst (shuffle x st)) = mset x"
proof (cases x)
  case Nil
  then show ?thesis by (simp add: shuffle_def)
next
  case (Cons a as)
  then show ?thesis by (simp add: shuffle_def mset_shuffle_loop)
qed

section \<open>Properties of the matcher\<close>

lemma check_valid_eq:
  "length gs = length rs \<Longrightarrow> check_valid gs rs = Inr (\<not> fixed_point gs rs)"
  by (induction gs rs rule: list_induct2) (simp_all add: fixed_point_def)

lemma fill_matches_eq:
  "length gs = length rs \<Longrightarrow> fill_matches gs rs m = Inr (AList.updates gs rs m)"
  by (induction gs rs arbitrary: m rule: list_induct2) simp_all

lemma update_fresh: "k \<notin> fst ` set al \<Longrightarrow> AList.update k v al = al @ [(k, v)]"
  by (induction al) auto

lemma updates_distinct:
  "length gs = length rs \<Longrightarrow> distinct gs \<Longrightarrow> set gs \<inter> fst ` set al = {} \<Longrightarrow>
   AList.updates gs rs al = al @ zip gs rs"
proof (induction gs rs arbitrary: al rule: list_induct2)
  case Nil
  then show ?case by simp
next
  case (Cons g gs r rs)
  have "AList.update g r al = al @ [(g, r)]"
    using Cons.prems by (intro update_fresh) auto
  moreover have "set gs \<inter> fst ` set (al @ [(g, r)]) = {}"
    using Cons.prems by auto
  ultimately show ?case
    using Cons.IH [of "al @ [(g, r)]"] Cons.prems by simp
qed

lemma map_upds_no_fixed:
  "length gs = length rs \<Longrightarrow> \<not> fixed_point gs rs \<Longrightarrow> p \<in> set gs \<Longrightarrow>
   \<exists>q. (m(gs [\<mapsto>] rs)) p = Some q \<and> q \<noteq> p"
proof (induction gs rs arbitrary: m rule: list_induct2)
  case Nil
  then show ?case by simp
next
  case (Cons g gs r rs)
  show ?case
  proof (cases "p \<in> set gs")
    case True
    moreover have "\<not> fixed_point gs rs"
      using Cons.prems by (simp add: fixed_point_def)
    ultimately have "\<exists>q. ((m(g \<mapsto> r))(gs [\<mapsto>] rs)) p = Some q \<and> q \<noteq> p"
      by (rule Cons.IH [rotated])
    then show ?thesis by simp
  next
    case False
    then have "p = g" using Cons.prems by simp
    then show ?thesis
      using False Cons.prems by (auto simp add: fixed_point_def)
  qed
qed

lemma attempt_loop_Inr:
  "attempt_loop k n gs rs st = (Inr m, n', st') \<Longrightarrow> length rs = length gs \<Longrightarrow>
   \<exists>rs'. mset rs' = mset rs \<and> length rs' = length gs \<and> \<not> fixed_point gs rs'
         \<and> m = AList.updates gs rs' []"
proof (induction k arbitrary: n rs st)
  case 0
  then show ?case by simp
next
  case (Suc k)
  obtain rs1 st1 where sh: "shuffle rs st = (rs1, st1)"
    by (cases "shuffle rs st")
  have len: "length rs1 = length gs"
    using length_shuffle [of rs st] sh Suc.prems by simp
  have ms: "mset rs1 = mset rs"
    using mset_shuffle [of rs st] sh by simp
  show ?case
  proof (cases "fixed_point gs rs1")
    case True
    then have "attempt_loop k (Suc n) gs rs1 st1 = (Inr m, n', st')"
      using Suc.prems sh len by (simp add: check_valid_eq)
    from Suc.IH [OF this len] ms show ?thesis by auto
  next
    case False
    then have "m = AList.updates gs rs1 []"
      using Suc.prems sh len by (simp add: check_valid_eq fill_matches_eq)
    with False len ms show ?thesis by blast
  qed
qed

lemma attempt_loop_unfold:
  "0 < k \<Longrightarrow> attempt_loop k n givers receivers st =
     (case shuffle receivers st of
        (receivers', st') \<Rightarrow>
          (case check_valid givers receivers' of
             Inl e \<Rightarrow> (Inl e, Suc n, st')
           | Inr valid \<Rightarrow>
               if valid then (fill_matches givers receivers' [], Suc n, st')
               else attempt_loop (k - 1) (Suc n) givers receivers' st'))"
  by (cases k) (simp_all split: prod.split sum.split)

text \<open>Three concrete runs, every draw being zero.\<close>

lemma generate_matches_abc:
  "generate_matches abc zero_source =
     (Inr [(str_of ''A'', str_of ''B''), (str_of ''B'', str_of ''C''), (str_of ''C'', str_of ''A'')],
      1, zero_source\<lparr>consumed := 2\<rparr>)"
  by (simp add: generate_matches_def max_attempts_def attempt_loop_unfold shuffle_def
      randbelow_def zero_source_def str_of_def abc_def)

lemma generate_matches_ab:
  "generate_matches [str_of ''A'', str_of ''B''] zero_source =
     (Inr [(str_of ''A'', str_of ''B''), (str_of ''B'', str_of ''A'')],
      1, zero_source\<lparr>consumed := 1\<rparr>)"
  by (simp add: generate_matches_def max_attempts_def attempt_loop_unfold shuffle_def
      randbelow_def zero_source_def str_of_def)

lemma generate_matches_aabb:
  "generate_matches [str_of ''A'', str_of ''A'', str_of ''B'', str_of ''B''] zero_source =
     (Inr [(str_of ''A'', str_of ''B''), (str_of ''B'', str_of ''A'')],
      2, zero_source\<lparr>consumed := 6\<rparr>)"
  by (simp add: generate_matches_def max_attempts_def attempt_loop_unfold shuffle_def
      randbelow_def zero_source_def str_of_def)

text \<open>
  C1 (derangement). Whenever \<open>generate_matches\<close> returns a mapping, every participant of
  the input list has a receiver in it, and that receiver is not the participant itself.
  Nothing is assumed of the list: it may hold duplicates.
\<close>

theorem generate_matches_no_self_assignment:
  assumes "generate_matches participants st = (Inr matches, n, st')"
    and "p \<in> set participants"
  shows "map_of matches p \<noteq> None \<and> map_of matches p \<noteq> Some p"
proof -
  from assms(1) obtain rs where rs: "length rs = length participants"
      "\<not> fixed_point participants rs" "matches = AList.updates participants rs []"
    using attempt_loop_Inr [of max_attempts 0 participants participants st matches n st']
    by (auto simp: generate_matches_def)
  have "map_of matches = Map.empty(participants [\<mapsto>] rs)"
    using rs by (simp add: updates_conv')
  then show ?thesis
    using map_upds_no_fixed [of participants rs p Map.empty] rs assms(2) by auto
qed

text \<open>The run on \<open>abc\<close> with every draw zero gives \<open>A\<close> the receiver \<open>B\<close>.\<close>

theorem generate_matches_no_self_assignment_witness:
  "map_of [(str_of ''A'', str_of ''B''), (str_of ''B'', str_of ''C''), (str_of ''C'', str_of ''A'')]
        (str_of ''A'') \<noteq> None
   \<and> map_of [(str_of ''A'', str_of ''B''), (str_of ''B'', str_of ''C''), (str_of ''C'', str_of ''A'')]
        (str_of ''A'') \<noteq> Some (str_of ''A'')"
proof -
  have mem: "str_of ''A'' \<in> set abc"
    by (simp add: abc_def)
  show ?thesis
    using generate_matches_no_self_assignment [OF generate_matches_abc mem] by simp
qed

section \<open>Exhaustion and missing validation\<close>

lemma length_shuffles: "length (fst (shuffles k x st)) = length x"
proof (induction k arbitrary: x st)
  case 0
  then show ?case by simp
next
  case (Suc k)
  obtain x1 st1 where sh: "shuffle x st = (x1, st1)" by (cases "shuffle x st")
  then have "length x1 = length x" using length_shuffle [of x st] by simp
  then show ?case using Suc.IH [of x1 st1] sh by simp
qed

lemma attempt_loop_exhausted:
  "length rs = length gs \<Longrightarrow>
   (\<And>j. 1 \<le> j \<Longrightarrow> j \<le> k \<Longrightarrow> fixed_point gs (candidate j rs st)) \<Longrightarrow>
   attempt_loop k n gs rs st =
     (Inl (GenerationExhausted max_attempts), n + k, snd (shuffles k rs st))"
proof (induction k arbitrary: n rs st)
  case 0
  then show ?case by simp
next
  case (Suc k)
  obtain rs1 st1 where sh: "shuffle rs st = (rs1, st1)" by (cases "shuffle rs st")
  have len: "length rs1 = length gs"
    using length_shuffle [of rs st] sh Suc.prems(1) by simp
  have "fixed_point gs (candidate 1 rs st)"
    using Suc.prems(2) [of 1] by simp
  then have fp: "fixed_point gs rs1"
    using sh by (simp add: candidate_def)
  have "fixed_point gs (candidate j rs1 st1)" if "1 \<le> j" "j \<le> k" for j
    using Suc.prems(2) [of "Suc j"] that sh by (simp add: candidate_def)
  then have "attempt_loop k (Suc n) gs rs1 st1 =
      (Inl (GenerationExhausted max_attempts), Suc n + k, snd (shuffles k rs1 st1))"
    using Suc.IH [OF len] by blast
  then show ?case
    using sh len fp by (simp add: check_valid_eq)
qed

lemma shuffle_singleton: "shuffle [p] st = ([p], st)"
  by (simp add: shuffle_def)

lemma shuffles_singleton: "shuffles k [p] st = ([p], st)"
  by (induction k) (simp_all add: shuffle_singleton)

lemma shuffle_empty: "shuffle [] st = ([], st)"
  by (simp add: shuffle_def)

lemma attempt_loop_no_IndexError:
  "length rs = length gs \<Longrightarrow> fst (attempt_loop k n gs rs st) \<noteq> Inl IndexError"
proof (induction k arbitrary: n rs st)
  case 0
  then show ?case by simp
next
  case (Suc k)
  obtain rs1 st1 where sh: "shuffle rs st = (rs1, st1)" by (cases "shuffle rs st")
  have len: "length rs1 = length gs"
    using length_shuffle [of rs st] sh Suc.prems by simp
  show ?case
    using sh len Suc.IH [OF len, of "Suc n" st1]
    by (simp add: check_valid_eq fill_matches_eq)
qed

lemma attempt_loop_count:
  "0 < k \<Longrightarrow> n < fst (snd (attempt_loop k n gs rs st))"
proof (induction k arbitrary: n rs st)
  case 0
  then show ?case by simp
next
  case (Suc k)
  obtain rs1 st1 where sh: "shuffle rs st = (rs1, st1)" by (cases "shuffle rs st")
  show ?case
  proof (cases k)
    case 0
    then show ?thesis using sh by (simp split: sum.split)
  next
    case (Suc k')
    then have "Suc n < fst (snd (attempt_loop k (Suc n) gs rs1 st1))"
      using Suc.IH [of "Suc n" rs1 st1] by simp
    then show ?thesis using sh by (simp split: sum.split)
  qed
qed

lemma mset_shuffles: "mset (fst (shuffles k x st)) = mset x"
proof (induction k arbitrary: x st)
  case 0
  then show ?case by simp
next
  case (Suc k)
  obtain x1 st1 where sh: "shuffle x st = (x1, st1)" by (cases "shuffle x st")
  then have "mset x1 = mset x" using mset_shuffle [of x st] by simp
  then show ?case using Suc.IH [of x1 st1] sh by simp
qed

lemma same_twice:
  assumes "mset rs = mset [p, p]"
  shows "rs = [p, p]"
proof -
  have "length rs = 2"
    using assms by (metis length_Cons list.size(3) mset_eq_length numeral_2_eq_2)
  then obtain x y where xy: "rs = [x, y]"
    by (metis (no_types) length_0_conv length_Suc_conv numeral_2_eq_2)
  have "set rs = {p}"
    using assms by (metis mset_eq_setD list.simps(15) empty_set insert_absorb2)
  then show ?thesis using xy by auto
qed

section \<open>Permutation\<close>

text \<open>
  C2 (bijection). For a list of unique participants, a mapping returned by
  \<open>generate_matches\<close> has the participants as its keys, each once and in the order of the
  list, so its domain is the participant set; its receivers, taken as a multiset, are the
  participants, each exactly once.
\<close>

theorem generate_matches_permutation:
  assumes "distinct participants"
    and "generate_matches participants st = (Inr matches, n, st')"
  shows "map fst matches = participants \<and> dom (map_of matches) = set participants
         \<and> mset (map snd matches) = mset participants \<and> distinct (map snd matches)"
proof -
  from assms(2) obtain rs where rs: "mset rs = mset participants"
      "length rs = length participants" "matches = AList.updates participants rs []"
    using attempt_loop_Inr [of max_attempts 0 participants participants st matches n st']
    by (auto simp: generate_matches_def)
  have m: "matches = zip participants rs"
    using updates_distinct [of participants rs "[]"] rs assms(1) by simp
  have "distinct rs"
    using assms(1) rs(1) by (metis mset_eq_imp_distinct_iff)
  then show ?thesis
    using m rs by (simp add: dom_map_of_zip)
qed

text \<open>The run on \<open>abc\<close> with every draw zero returns a permutation of \<open>abc\<close>.\<close>

theorem generate_matches_permutation_witness:
  "map fst [(str_of ''A'', str_of ''B''), (str_of ''B'', str_of ''C''), (str_of ''C'', str_of ''A'')] = abc
   \<and> mset (map snd [(str_of ''A'', str_of ''B''), (str_of ''B'', str_of ''C''),
        (str_of ''C'', str_of ''A'')]) = mset abc"
proof -
  have d: "distinct abc"
    by (simp add: abc_def str_of_def)
  show ?thesis
    using generate_matches_permutation [OF d generate_matches_abc] by simp
qed

text \<open>
  C3 (exhaustion). If each of the \<open>max_attempts\<close> candidates the random source produces has a
  fixed point, \<open>generate_matches\<close> returns no mapping: it raises the generation-exhausted
  error carrying the ceiling, after exactly 1000 calls of the shuffle.
\<close>

theorem generate_matches_exhausted:
  assumes "\<forall>k. 1 \<le> k \<and> k \<le> max_attempts \<longrightarrow> fixed_point participants (candidate k participants st)"
  shows "generate_matches participants st =
     (Inl (GenerationExhausted 1000), 1000, snd (shuffles 1000 participants st))"
  using attempt_loop_exhausted [of participants participants max_attempts st 0] assms
  by (simp add: generate_matches_def max_attempts_def)

text \<open>
  A single participant is always its own candidate, so the run exhausts its attempts and
  reads no draw.
\<close>

theorem generate_matches_exhausted_witness:
  "generate_matches [str_of ''Annie''] zero_source =
     (Inl (GenerationExhausted 1000), 1000, zero_source)"
proof -
  have h: "\<forall>k. 1 \<le> k \<and> k \<le> max_attempts \<longrightarrow>
      fixed_point [str_of ''Annie''] (candidate k [str_of ''Annie''] zero_source)"
    by (simp add: candidate_def shuffles_singleton fixed_point_def)
  show ?thesis
    using generate_matches_exhausted [OF h] by (simp add: shuffles_singleton)
qed

text \<open>
  C4, as stated, fails: the empty list has fewer than two participants, and the run on it
  shuffles once and returns the empty mapping.
\<close>

theorem generate_matches_empty_returns:
  "generate_matches ([] :: pystr list) zero_source = (Inr [], 1, zero_source)"
  by (simp add: generate_matches_def max_attempts_def attempt_loop_unfold shuffle_empty)

text \<open>
  C4 (amended). \<open>generate_matches\<close> does not validate its input. Whatever the list, it makes
  at least one shuffle attempt and it never fails with \<open>IndexError\<close>, so that
  generation-exhausted is its only error. The empty list returns the empty mapping after
  exactly one attempt; a single participant fails with generation-exhausted after exactly
  1000 attempts, and so does the same identifier given twice; a list with duplicates can
  also return a mapping, as \<open>[A, A, B, B]\<close> does.
\<close>

theorem generate_matches_no_validation:
  "0 < fst (snd (generate_matches participants st))
   \<and> fst (generate_matches participants st) \<noteq> Inl IndexError
   \<and> generate_matches [] st = (Inr [], 1, st)
   \<and> generate_matches [p] st = (Inl (GenerationExhausted 1000), 1000, st)
   \<and> fst (generate_matches [p, p] st) = Inl (GenerationExhausted 1000)
   \<and> fst (snd (generate_matches [p, p] st)) = 1000
   \<and> fst (generate_matches [str_of ''A'', str_of ''A'', str_of ''B'', str_of ''B''] zero_source)
       = Inr [(str_of ''A'', str_of ''B''), (str_of ''B'', str_of ''A'')]"
proof -
  have "0 < fst (snd (generate_matches participants st))"
    using attempt_loop_count [of max_attempts 0 participants participants st]
    by (simp add: generate_matches_def max_attempts_def)
  moreover have "fst (generate_matches participants st) \<noteq> Inl IndexError"
    using attempt_loop_no_IndexError [of participants participants max_attempts 0 st]
    by (simp add: generate_matches_def)
  moreover have "generate_matches [] st = (Inr [], 1, st)"
    by (simp add: generate_matches_def max_attempts_def attempt_loop_unfold shuffle_empty)
  moreover have "generate_matches [p] st = (Inl (GenerationExhausted 1000), 1000, st)"
    using attempt_loop_exhausted [of "[p]" "[p]" max_attempts st 0]
    by (simp add: generate_matches_def max_attempts_def candidate_def shuffles_singleton
        fixed_point_def)
  moreover have "generate_matches [p, p] st =
      (Inl (GenerationExhausted 1000), 1000, snd (shuffles 1000 [p, p] st))"
  proof -
    have "candidate j [p, p] st = [p, p]" for j
      using mset_shuffles [of j "[p, p]" st] by (simp add: candidate_def same_twice)
    then show ?thesis
      using attempt_loop_exhausted [of "[p, p]" "[p, p]" max_attempts st 0]
      by (simp add: generate_matches_def max_attempts_def fixed_point_def)
  qed
  ultimately show ?thesis
    by (simp add: generate_matches_aabb)
qed

section \<open>The two-participant list\<close>

lemma swap_only:
  assumes "mset rs = mset [a, b]" and "\<not> fixed_point [a, b] rs"
  shows "rs = [b, a]"
proof -
  have "length rs = 2"
    using assms(1) by (metis length_Cons list.size(3) mset_eq_length numeral_2_eq_2)
  then obtain x y where xy: "rs = [x, y]"
    by (metis (no_types) length_0_conv length_Suc_conv numeral_2_eq_2)
  have "set rs = {a, b}"
    using assms(1) by (metis mset_eq_setD list.simps(15) empty_set)
  then have "x \<in> {a, b}" "y \<in> {a, b}"
    using xy by auto
  moreover have "x \<noteq> a" "y \<noteq> b"
    using assms(2) xy by (auto simp: fixed_point_def)
  ultimately show ?thesis
    using xy by simp
qed

text \<open>
  C7 (minimum size). On the list \<open>[A, B]\<close> every run of \<open>generate_matches\<close> that returns a
  mapping returns the swap \<open>{A: B, B: A}\<close>, whatever the random source.
\<close>

theorem generate_matches_two_swap:
  assumes "generate_matches [str_of ''A'', str_of ''B''] st = (Inr matches, n, st')"
  shows "matches = [(str_of ''A'', str_of ''B''), (str_of ''B'', str_of ''A'')]"
proof -
  let ?ps = "[str_of ''A'', str_of ''B'']"
  from assms obtain rs where rs: "mset rs = mset ?ps"
      "\<not> fixed_point ?ps rs" "matches = AList.updates ?ps rs []"
    using attempt_loop_Inr [of max_attempts 0 ?ps ?ps st matches n st']
    by (auto simp: generate_matches_def)
  have "rs = [str_of ''B'', str_of ''A'']"
    using rs(1,2) by (rule swap_only)
  moreover have "str_of ''A'' \<noteq> str_of ''B''"
    by (simp add: str_of_def)
  ultimately show ?thesis
    using rs(3) by (simp add: AList.updates_def)
qed

text \<open>With every draw zero the run on \<open>[A, B]\<close> returns at its first attempt.\<close>

theorem generate_matches_two_swap_witness:
  "fst (generate_matches [str_of ''A'', str_of ''B''] zero_source) =
     Inr [(str_of ''A'', str_of ''B''), (str_of ''B'', str_of ''A'')]"
  using generate_matches_two_swap [OF generate_matches_ab] generate_matches_ab by simp

section \<open>Determinism\<close>

lemma randbelow_same:
  "same_draws st1 st2 \<Longrightarrow>
   fst (randbelow n st1) = fst (randbelow n st2) \<and>
   same_draws (snd (randbelow n st1)) (snd (randbelow n st2))"
  by (simp add: randbelow_def same_draws_def)

lemma shuffle_loop_same:
  "same_draws st1 st2 \<Longrightarrow>
   fst (shuffle_loop i x st1) = fst (shuffle_loop i x st2) \<and>
   same_draws (snd (shuffle_loop i x st1)) (snd (shuffle_loop i x st2))"
proof (induction i arbitrary: x st1 st2)
  case 0
  then show ?case by simp
next
  case (Suc i)
  obtain j1 t1 where r1: "randbelow (Suc i + 1) st1 = (j1, t1)"
    by (cases "randbelow (Suc i + 1) st1")
  obtain j2 t2 where r2: "randbelow (Suc i + 1) st2 = (j2, t2)"
    by (cases "randbelow (Suc i + 1) st2")
  have "j1 = j2" "same_draws t1 t2"
    using randbelow_same [OF Suc.prems, of "Suc i + 1"] r1 r2 by simp_all
  then show ?case
    using Suc.IH [of t1 t2 "x[Suc i := x ! j1, j1 := x ! Suc i]"] r1 r2 by simp
qed

lemma shuffle_same:
  "same_draws st1 st2 \<Longrightarrow>
   fst (shuffle x st1) = fst (shuffle x st2) \<and>
   same_draws (snd (shuffle x st1)) (snd (shuffle x st2))"
  by (simp add: shuffle_def shuffle_loop_same)

lemma attempt_loop_same:
  "same_draws st1 st2 \<Longrightarrow>
   fst (attempt_loop k n gs rs st1) = fst (attempt_loop k n gs rs st2) \<and>
   fst (snd (attempt_loop k n gs rs st1)) = fst (snd (attempt_loop k n gs rs st2)) \<and>
   same_draws (snd (snd (attempt_loop k n gs rs st1))) (snd (snd (attempt_loop k n gs rs st2)))"
proof (induction k arbitrary: n rs st1 st2)
  case 0
  then show ?case by simp
next
  case (Suc k)
  obtain x1 t1 where s1: "shuffle rs st1 = (x1, t1)" by (cases "shuffle rs st1")
  obtain x2 t2 where s2: "shuffle rs st2 = (x2, t2)" by (cases "shuffle rs st2")
  have eq: "x1 = x2" "same_draws t1 t2"
    using shuffle_same [OF Suc.prems, of rs] s1 s2 by simp_all
  show ?case
    using Suc.IH [OF eq(2), of "Suc n" x2] s1 s2 eq
    by (simp split: sum.split)
qed

lemma generate_matches_same_draws:
  assumes "same_draws st1 st2"
  shows "fst (generate_matches participants st1) = fst (generate_matches participants st2)
     \<and> fst (snd (generate_matches participants st1)) = fst (snd (generate_matches participants st2))"
  using attempt_loop_same [OF assms, of max_attempts 0 participants participants]
  by (simp add: generate_matches_def)

section \<open>The input list is left alone\<close>

lemma attempt_loop_st_frame:
  "g < length h \<Longrightarrow> r < length h \<Longrightarrow> g \<noteq> r \<Longrightarrow>
   attempt_loop_st k n g r h st = (res, n', st', h') \<Longrightarrow>
   length h' = length h \<and> (\<forall>a<length h. a \<noteq> r \<longrightarrow> h' ! a = h ! a)
   \<and> attempt_loop k n (h ! g) (h ! r) st = (res, n', st')"
proof (induction k arbitrary: n h st)
  case 0
  then show ?case by auto
next
  case (Suc k)
  obtain x st1 where sh: "shuffle (h ! r) st = (x, st1)" by (cases "shuffle (h ! r) st")
  let ?h1 = "h[r := x]"
  have h1: "shuffle_in_place r h st = (?h1, st1)"
    using sh by (simp add: shuffle_in_place_def)
  have g1: "?h1 ! g = h ! g" using Suc.prems by simp
  have r1: "?h1 ! r = x" using Suc.prems by simp
  have stop: ?case if "attempt_loop_st (Suc k) n g r h st = (res0, Suc n, st1, ?h1)"
      "attempt_loop (Suc k) n (h ! g) (h ! r) st = (res0, Suc n, st1)" for res0
  proof -
    have "res = res0" "n' = Suc n" "st' = st1" "h' = ?h1"
      using that(1) Suc.prems(4) by simp_all
    then show ?thesis using that(2) by simp
  qed
  show ?case
  proof (cases "check_valid (h ! g) x")
    case (Inl e)
    show ?thesis
      by (rule stop [of "Inl e"]) (simp_all add: h1 g1 r1 sh Inl)
  next
    case (Inr valid)
    show ?thesis
    proof (cases valid)
      case True
      show ?thesis
        by (rule stop [of "fill_matches (h ! g) x []"]) (simp_all add: h1 g1 r1 sh Inr True)
    next
      case False
      then have rec: "attempt_loop_st k (Suc n) g r ?h1 st1 = (res, n', st', h')"
        using Suc.prems(4) h1 g1 r1 Inr by simp
      have "length h' = length ?h1 \<and> (\<forall>a<length ?h1. a \<noteq> r \<longrightarrow> h' ! a = ?h1 ! a)
          \<and> attempt_loop k (Suc n) (?h1 ! g) (?h1 ! r) st1 = (res, n', st')"
        using Suc.IH [of ?h1 "Suc n" st1] Suc.prems(1,2,3) rec by simp
      then show ?thesis
        using g1 r1 sh Inr False by simp
    qed
  qed
qed

lemma attempt_loop_st_unfold:
  "0 < k \<Longrightarrow> attempt_loop_st k n givers receivers h st =
     (case shuffle_in_place receivers h st of
        (h', st') \<Rightarrow>
          (case check_valid (h' ! givers) (h' ! receivers) of
             Inl e \<Rightarrow> (Inl e, Suc n, st', h')
           | Inr valid \<Rightarrow>
               if valid then (fill_matches (h' ! givers) (h' ! receivers) [], Suc n, st', h')
               else attempt_loop_st (k - 1) (Suc n) givers receivers h' st'))"
  by (cases k) (simp_all split: prod.split sum.split)

lemma generate_matches_st_abc:
  "generate_matches_st 0 [abc] zero_source =
     (Inr [(str_of ''A'', str_of ''B''), (str_of ''B'', str_of ''C''), (str_of ''C'', str_of ''A'')],
      1, zero_source\<lparr>consumed := 2\<rparr>,
      [abc, [str_of ''B'', str_of ''C'', str_of ''A''], abc])"
  by (simp add: generate_matches_st_def list_copy_def shuffle_in_place_def max_attempts_def
      attempt_loop_st_unfold shuffle_def randbelow_def zero_source_def str_of_def abc_def)

lemma generate_matches_st_run:
  assumes "participants < length h"
    and "generate_matches_st participants h st = (res, n, st', h')"
  shows "length h' = length h + 2" and "h' ! participants = h ! participants"
    and "take (length h) h' = h"
    and "generate_matches (h ! participants) st = (res, n, st')"
proof -
  let ?x = "h ! participants"
  let ?h2 = "h @ [?x] @ [?x]"
  have run: "attempt_loop_st max_attempts 0 (Suc (length h)) (length h) ?h2 st = (res, n, st', h')"
    using assms by (simp add: generate_matches_st_def list_copy_def nth_append)
  have fr: "length h' = length ?h2 \<and> (\<forall>a<length ?h2. a \<noteq> length h \<longrightarrow> h' ! a = ?h2 ! a)
      \<and> attempt_loop max_attempts 0 (?h2 ! Suc (length h)) (?h2 ! length h) st = (res, n, st')"
    by (rule attempt_loop_st_frame [OF _ _ _ run]) simp_all
  have old: "h' ! a = h ! a" if "a < length h" for a
    using fr that by (simp add: nth_append)
  have "take (length h) h' = h"
    using fr old by (intro nth_equalityI) simp_all
  moreover have "?h2 ! Suc (length h) = ?x" "?h2 ! length h = ?x"
    by (simp_all add: nth_append)
  ultimately show "length h' = length h + 2" and "h' ! participants = h ! participants"
    and "take (length h) h' = h"
    and "generate_matches (h ! participants) st = (res, n, st')"
    using fr old [OF assms(1)] by (simp_all add: generate_matches_def)
qed


text \<open>
  C9 (no effect on the input). After \<open>generate_matches\<close> has run on a list of the store,
  whether it returned a mapping or raised, that list holds the same elements in the same
  order; so does every list that existed before the call: only the two copies the function
  allocated were written. The outcome is the one \<open>generate_matches\<close> computes on the
  content of the list.
\<close>

theorem generate_matches_st_frame:
  assumes "participants < length h"
    and "generate_matches_st participants h st = (res, n, st', h')"
  shows "h' ! participants = h ! participants \<and> take (length h) h' = h
         \<and> generate_matches (h ! participants) st = (res, n, st')"
  using generate_matches_st_run [OF assms] by simp

text \<open>The run on a store holding \<open>abc\<close> alone leaves \<open>abc\<close> in place and adds the two copies.\<close>

theorem generate_matches_st_frame_witness:
  "[abc, [str_of ''B'', str_of ''C'', str_of ''A''], abc] ! 0 = [abc] ! 0
   \<and> take (length [abc]) [abc, [str_of ''B'', str_of ''C'', str_of ''A''], abc] = [abc]"
proof -
  have v: "0 < length [abc]" by simp
  show ?thesis
    using generate_matches_st_frame [OF v generate_matches_st_abc] by simp
qed

section \<open>Repeated invocations\<close>

lemma generate_matches_st_replay:
  "generate_matches_st 0 [abc] replay_a =
     (Inr [(str_of ''A'', str_of ''B''), (str_of ''B'', str_of ''C''), (str_of ''C'', str_of ''A'')],
      1, replay_a\<lparr>consumed := 3\<rparr>,
      [abc, [str_of ''B'', str_of ''C'', str_of ''A''], abc])"
  by (simp add: generate_matches_st_def list_copy_def shuffle_in_place_def max_attempts_def
      attempt_loop_st_unfold shuffle_def randbelow_def replay_a_def str_of_def abc_def)

text \<open>
  C8 (determinism under fixed randomness). Take two invocations of \<open>generate_matches\<close>, one
  after the other, on the same list object. The second runs on the store the first has
  left, which holds the two lists the first allocated, one of them shuffled. If the
  generator is put back, before the second invocation, to the seed state it had before the
  first (the same position and the same pending draws), the second invocation gives what
  the first gave: the same mapping or the same error, after as many attempts.
\<close>

theorem generate_matches_st_deterministic:
  assumes "participants < length h"
    and "generate_matches_st participants h st = (res1, n1, st1, h1)"
    and "consumed st' = consumed st"
    and "\<forall>k\<ge>consumed st. source st' k = source st k"
    and "generate_matches_st participants h1 st' = (res2, n2, st2, h2)"
  shows "res2 = res1 \<and> n2 = n1"
proof -
  note first = generate_matches_st_run [OF assms(1,2)]
  have "participants < length h1"
    using first(1) assms(1) by simp
  note second = generate_matches_st_run [OF this assms(5)]
  have "same_draws st st'"
    using assms(3,4) by (simp add: same_draws_def)
  then show ?thesis
    using generate_matches_same_draws [of st st' "h ! participants"] first(2,4) second(4)
    by simp
qed

text \<open>
  After a first run on a store holding \<open>abc\<close> alone, a second run on the store it left, from
  another state with the same pending draws, returns the mapping of the first at its first
  attempt.
\<close>

theorem generate_matches_st_deterministic_witness:
  "fst (generate_matches_st 0 [abc, [str_of ''B'', str_of ''C'', str_of ''A''], abc] replay_b) =
     Inr [(str_of ''A'', str_of ''B''), (str_of ''B'', str_of ''C''), (str_of ''C'', str_of ''A'')]
   \<and> fst (snd (generate_matches_st 0 [abc, [str_of ''B'', str_of ''C'', str_of ''A''], abc]
        replay_b)) = 1"
proof -
  let ?h1 = "[abc, [str_of ''B'', str_of ''C'', str_of ''A''], abc]"
  let ?X = "generate_matches_st 0 ?h1 replay_b"
  have v: "0 < length [abc]" by simp
  have c: "consumed replay_b = consumed replay_a"
    by (simp add: replay_a_def replay_b_def)
  have s: "\<forall>k\<ge>consumed replay_a. source replay_b k = source replay_a k"
    by (simp add: replay_a_def replay_b_def)
  have second: "?X = (fst ?X, fst (snd ?X), fst (snd (snd ?X)), snd (snd (snd ?X)))"
    by simp
  show ?thesis
    using generate_matches_st_deterministic [OF v generate_matches_st_replay c s second]
    by simp
qed

section \<open>The personal page\<close>

lemma sublist_split_at:
  assumes "c \<notin> set x" and "sublist x (a @ c # b)"
  shows "sublist x a \<or> sublist x b"
proof -
  from assms(2) consider "sublist x a" | "sublist x (c # b)"
    | x1 x2 where "x = x1 @ x2" "suffix x1 a" "prefix x2 (c # b)"
    by (auto simp: sublist_append)
  then show ?thesis
  proof cases
    case 1
    then show ?thesis by simp
  next
    case 2
    then have "prefix x (c # b) \<or> sublist x b"
      by (simp add: sublist_Cons_right)
    moreover have "x = []" if "prefix x (c # b)"
      using that assms(1) by (cases x) auto
    ultimately show ?thesis by auto
  next
    case 3
    have "x2 = []"
      using 3(1,3) assms(1) by (cases x2) auto
    then show ?thesis
      using 3(1,2) by auto
  qed
qed

lemma sublist_text_lines:
  assumes "0x0A \<notin> set x" and "sublist x (text_lines ls @ r)"
  shows "(\<exists>l\<in>set ls. sublist x l) \<or> sublist x r"
  using assms(2)
proof (induction ls)
  case Nil
  then show ?case by (simp add: text_lines_def)
next
  case (Cons l ls)
  have "text_lines (l # ls) @ r = l @ 0x0A # (text_lines ls @ r)"
    by (simp add: text_lines_def)
  then have "sublist x l \<or> sublist x (text_lines ls @ r)"
    using Cons.prems assms(1) sublist_split_at [of "0x0A" x l "text_lines ls @ r"] by simp
  then show ?case
    using Cons.IH by auto
qed

lemma participants_nf:
  "PARTICIPANTS =
    [[65, 110, 110, 105, 101], [74, 97, 99, 113, 117, 101, 115],
     [86, 105, 110, 99, 101, 110, 116], [78, 97, 116, 104, 97, 108, 105, 101],
     [71, 114, 233, 103, 111, 105, 114, 101], [65, 114, 111, 108, 100, 111],
     [76, 97, 117, 114, 101, 110, 99, 101], [80, 97, 116, 114, 105, 99, 107],
     [65, 114, 116, 104, 117, 114], [77, 97, 116, 104, 105, 108, 100, 101],
     [81, 117, 101, 110, 116, 105, 110], [67, 108, 233, 109, 101, 110, 99, 101],
     [65, 120, 101, 108], [74, 117, 108, 105, 101, 110], [65, 117, 114, 233, 108, 105, 101],
     [79, 115, 99, 97, 114], [74, 101, 97, 110, 110, 101], [76, 233, 111, 110]]"
  by (simp add: PARTICIPANTS_def str_of_def)

lemma participants_chars:
  "n \<in> set PARTICIPANTS \<Longrightarrow> 0x0A \<notin> set n \<and> 0x3C \<notin> set n \<and> 0x3E \<notin> set n"
  by (auto simp: participants_nf)

lemma mentions_Nil: "mentions names [] = list_ex (\<lambda>n. n = []) names"
  by (simp add: mentions_def)

lemma mentions_Cons: "mentions names (c # cs) = (starts names (c # cs) \<or> mentions names cs)"
  by (auto simp: mentions_def starts_def list_ex_iff sublist_Cons_right)

lemma starts_Nil: "starts [] t = False"
  by (simp add: starts_def)

lemma starts_Cons: "starts (n # ns) t = (prefix n t \<or> starts ns t)"
  by (simp add: starts_def)

text \<open>
  Every participant name starts with a capital letter, so a scan for the names only has to
  look at the capitals of the text.
\<close>

lemma mentions_upper:
  "mentions PARTICIPANTS (c # cs) =
     (if c \<le> 90 then (if 65 \<le> c then starts PARTICIPANTS (c # cs) \<or> mentions PARTICIPANTS cs
                       else mentions PARTICIPANTS cs)
      else mentions PARTICIPANTS cs)"
proof -
  have "\<not> starts PARTICIPANTS (c # cs)" if "\<not> (65 \<le> c \<and> c \<le> 90)"
    using that unfolding participants_nf starts_Cons starts_Nil by auto
  then show ?thesis
    by (auto simp: mentions_Cons)
qed

lemma mentions_participants_Nil: "\<not> mentions PARTICIPANTS []"
  by (simp add: mentions_Nil participants_nf)

lemma page_head_lines_clean: "list_all (\<lambda>l. \<not> mentions PARTICIPANTS l) page_head_lines"
  apply (simp add: page_head_lines_def str_of_def mentions_participants_Nil mentions_upper)
  apply (simp add: participants_nf starts_Cons starts_Nil)
  done

lemma page_middle_lines_clean: "list_all (\<lambda>l. \<not> mentions PARTICIPANTS l) page_middle_lines"
  apply (simp add: page_middle_lines_def str_of_def mentions_participants_Nil mentions_upper)
  apply (simp add: participants_nf starts_Cons starts_Nil)
  done

lemma page_tail_lines_clean: "list_all (\<lambda>l. \<not> mentions PARTICIPANTS l) page_tail_lines"
  apply (simp add: page_tail_lines_def str_of_def mentions_participants_Nil mentions_upper)
  apply (simp add: participants_nf starts_Cons starts_Nil)
  done

lemma page_ends_clean:
  "\<not> mentions PARTICIPANTS page_head_end" "\<not> mentions PARTICIPANTS page_middle_end"
  "\<not> mentions PARTICIPANTS page_tail_end"
  apply (simp_all add: page_head_end_def page_middle_end_def page_tail_end_def str_of_def
      mentions_participants_Nil mentions_upper)
  apply (simp add: participants_nf starts_Cons starts_Nil)
  done

lemma clean_text:
  assumes "list_all (\<lambda>l. \<not> mentions PARTICIPANTS l) ls" and "\<not> mentions PARTICIPANTS e"
    and "n \<in> set PARTICIPANTS"
  shows "\<not> sublist n (text_lines ls @ e)"
proof
  assume "sublist n (text_lines ls @ e)"
  then have "(\<exists>l\<in>set ls. sublist n l) \<or> sublist n e"
    using participants_chars [OF assms(3)] by (intro sublist_text_lines) simp_all
  then have "(\<exists>l\<in>set ls. mentions PARTICIPANTS l) \<or> mentions PARTICIPANTS e"
    using assms(3) by (auto simp: mentions_def list_ex_iff)
  then show False
    using assms(1,2) by (auto simp: list_all_iff)
qed

lemma page_pieces_clean:
  assumes "n \<in> set PARTICIPANTS"
  shows "\<not> sublist n page_head" "\<not> sublist n page_middle" "\<not> sublist n page_tail"
  unfolding page_head_def page_middle_def page_tail_def
  using assms page_head_lines_clean page_middle_lines_clean page_tail_lines_clean page_ends_clean
  by (simp_all add: clean_text)

lemma names_not_nested_all:
  "list_all (\<lambda>g. list_all (\<lambda>n. n = g \<or> \<not> sublist n g) PARTICIPANTS) PARTICIPANTS"
  by (simp add: participants_nf sublist_Cons_right)

lemma names_not_nested:
  "n \<in> set PARTICIPANTS \<Longrightarrow> g \<in> set PARTICIPANTS \<Longrightarrow> sublist n g \<Longrightarrow> n = g"
  using names_not_nested_all by (auto simp: list_all_iff)

lemma page_head_shape: "page_head = butlast page_head @ [0x3E]"
proof -
  have "page_head_end = butlast page_head_end @ [0x3E]"
    by (simp add: page_head_end_def str_of_def)
  then have "page_head = (text_lines page_head_lines @ butlast page_head_end) @ [0x3E]"
    by (simp add: page_head_def)
  then show ?thesis
    by (metis butlast_snoc)
qed

lemma page_middle_shape: "page_middle = 0x3C # butlast (tl page_middle) @ [0x3E]"
  by (simp add: page_middle_def page_middle_lines_def page_middle_end_def text_lines_def
      str_of_def)

lemma page_tail_shape: "page_tail = 0x3C # tl page_tail"
proof -
  obtain l ls where "page_tail_lines = (0x3C # l) # ls"
    by (simp add: page_tail_lines_def str_of_def)
  then have "page_tail = text_lines ((0x3C # l) # ls) @ page_tail_end"
    by (simp only: page_tail_def)
  then have "page_tail = 0x3C # (l @ 0x0A # text_lines ls @ page_tail_end)"
    by (simp add: text_lines_def)
  then show ?thesis
    by (metis list.sel(3))
qed

text \<open>
  C5 (privacy isolation). For a giver and a receiver of the participant list, different from
  each other, the page holds the name of the giver and the name of the receiver, and no
  occurrence of the name of any other participant of the list.
\<close>

theorem create_individual_page_privacy:
  assumes "giver \<in> set PARTICIPANTS" and "receiver \<in> set PARTICIPANTS"
    and "giver \<noteq> receiver"
  shows "sublist giver (create_individual_page giver receiver random_string)
     \<and> sublist receiver (create_individual_page giver receiver random_string)
     \<and> (\<forall>other\<in>set PARTICIPANTS. other \<noteq> giver \<and> other \<noteq> receiver \<longrightarrow>
          \<not> sublist other (create_individual_page giver receiver random_string))"
proof -
  let ?page = "create_individual_page giver receiver random_string"
  have page: "?page = page_head @ giver @ page_middle @ receiver @ page_tail"
    by (simp add: create_individual_page_def)
  have g: "sublist giver ?page"
    unfolding page by (rule sublist_appendI)
  have "?page = (page_head @ giver @ page_middle) @ receiver @ page_tail"
    by (simp add: page)
  then have r: "sublist receiver ?page"
    by (metis sublist_appendI)
  have o: "\<not> sublist other ?page"
    if other: "other \<in> set PARTICIPANTS" "other \<noteq> giver" "other \<noteq> receiver" for other
  proof
    assume occ: "sublist other ?page"
    note ch = participants_chars [OF other(1)]
    note clean = page_pieces_clean [OF other(1)]
    let ?hp = "butlast page_head" and ?m = "butlast (tl page_middle)" and ?t = "tl page_tail"
    have "?page = ?hp @ 0x3E # (giver @ page_middle @ receiver @ page_tail)"
      using page_head_shape by (simp add: page)
    then have "sublist other ?hp \<or> sublist other (giver @ page_middle @ receiver @ page_tail)"
      using occ ch sublist_split_at [of "0x3E" other ?hp] by simp
    moreover have "\<not> sublist other ?hp"
      using clean(1) page_head_shape by (metis sublist_append_rightI sublist_order.order_trans)
    ultimately have "sublist other (giver @ 0x3C # (?m @ 0x3E # (receiver @ page_tail)))"
      using page_middle_shape by (metis append_Cons append_assoc append_Nil)
    then have "sublist other giver \<or> sublist other (?m @ 0x3E # (receiver @ page_tail))"
      using ch sublist_split_at [of "0x3C" other giver] by simp
    moreover have "\<not> sublist other giver"
      using names_not_nested [OF other(1) assms(1)] other(2) by blast
    ultimately have "sublist other ?m \<or> sublist other (receiver @ page_tail)"
      using ch sublist_split_at [of "0x3E" other ?m] by simp
    moreover have "\<not> sublist other ?m"
    proof
      assume a: "sublist other ?m"
      have "sublist ?m page_middle"
        using page_middle_shape by (metis append_Cons append_Nil sublist_appendI)
      then show False
        using a clean(2) sublist_order.order_trans by blast
    qed
    ultimately have "sublist other (receiver @ 0x3C # ?t)"
      using page_tail_shape by simp
    then have "sublist other receiver \<or> sublist other ?t"
      using ch sublist_split_at [of "0x3C" other receiver] by simp
    moreover have "\<not> sublist other receiver"
      using names_not_nested [OF other(1) assms(2)] other(3) by blast
    moreover have "\<not> sublist other ?t"
    proof
      assume a: "sublist other ?t"
      have "sublist ?t page_tail"
        using page_tail_shape by (metis append_Cons append_Nil sublist_append_leftI)
      then show False
        using a clean(3) sublist_order.order_trans by blast
    qed
    ultimately show False by blast
  qed
  from g r o show ?thesis by blast
qed

text \<open>
  On the page of Annie, who gives to Jacques, both names occur and that of Vincent does not.
\<close>

theorem create_individual_page_privacy_witness:
  "sublist (str_of ''Annie'') (create_individual_page (str_of ''Annie'') (str_of ''Jacques'') [])
   \<and> sublist (str_of ''Jacques'') (create_individual_page (str_of ''Annie'') (str_of ''Jacques'') [])
   \<and> \<not> sublist (str_of ''Vincent'')
        (create_individual_page (str_of ''Annie'') (str_of ''Jacques'') [])"
proof -
  have a: "str_of ''Annie'' \<in> set PARTICIPANTS" and j: "str_of ''Jacques'' \<in> set PARTICIPANTS"
    and v: "str_of ''Vincent'' \<in> set PARTICIPANTS"
    by (simp_all add: PARTICIPANTS_def)
  have d: "str_of ''Annie'' \<noteq> str_of ''Jacques''" "str_of ''Vincent'' \<noteq> str_of ''Annie''"
    "str_of ''Vincent'' \<noteq> str_of ''Jacques''"
    by (simp_all add: str_of_def)
  show ?thesis
    using create_individual_page_privacy [OF a j d(1), of "[]"] v d(2,3) by blast
qed

text \<open>
  C10 (the token does not reach the page). \<open>create_individual_page\<close> gives the same page
  for any two tokens; in the loop of \<open>main\<close> the token goes into the file name, and the
  content written is the page of the giver and the receiver, whatever the random source.
\<close>

theorem create_individual_page_ignores_token:
  "create_individual_page giver receiver t1 = create_individual_page giver receiver t2
   \<and> snd (fst (main_step ucd giver receiver st)) = create_individual_page giver receiver t1
   \<and> fst (fst (main_step ucd giver receiver st)) =
       generate_filename ucd giver @ str_of ''-'' @ fst (generate_random_string 8 st)
         @ str_of ''.html''"
  by (simp add: create_individual_page_def main_step_def split_beta)

section \<open>File names\<close>











end
